theory Spec2Isabelle
  imports Complex_Main "HOL-Library.Word"
begin

unbundle bit_operations_syntax

section \<open>Strings and the language built-ins used by utils.ts\<close>

text \<open>
  A JavaScript string is a sequence of UTF-16 code units; a code unit is modelled as a
  natural number (a number above 65535 never denotes a real code unit and is treated as
  an ordinary, non-blank, non-digit character).  \<open>js\<close> turns an ASCII literal into such
  a sequence, so that \<open>js ''0x1A''\<close> reads as the source literal \<^verbatim>\<open>'0x1A'\<close>.
\<close>

type_synonym code_unit = nat
type_synonym js_string = "code_unit list"

definition js :: "string \<Rightarrow> js_string" where
  "js s = map of_char s"

text \<open>
  The character class \<^verbatim>\<open>\s\<close> of a regular expression: TAB, LF, VT, FF, CR, space,
  no-break space, U+1680, U+2000 to U+200A, U+2028, U+2029, U+202F, U+205F, U+3000 and
  U+FEFF.  The same set is the white space that the conversion of a string to a BigInt
  trims at both ends.
\<close>

definition is_whitespace :: "code_unit \<Rightarrow> bool" where
  "is_whitespace c =
     (c = 9 \<or> c = 10 \<or> c = 11 \<or> c = 12 \<or> c = 13 \<or> c = 32 \<or> c = 160 \<or> c = 5760
      \<or> (8192 \<le> c \<and> c \<le> 8202) \<or> c = 8232 \<or> c = 8233 \<or> c = 8239 \<or> c = 8287
      \<or> c = 12288 \<or> c = 65279)"

text \<open>\<^verbatim>\<open>String.prototype.startsWith\<close>.\<close>

definition startsWith :: "js_string \<Rightarrow> js_string \<Rightarrow> bool" where
  "startsWith s p = (take (length p) s = p)"

text \<open>
  The value of a character as a digit: \<^verbatim>\<open>0-9\<close>, \<^verbatim>\<open>a-f\<close> and \<^verbatim>\<open>A-F\<close>; no value for any
  other character.
\<close>

definition digit_value :: "code_unit \<Rightarrow> nat option" where
  "digit_value c =
     (if 48 \<le> c \<and> c \<le> 57 then Some (c - 48)
      else if 97 \<le> c \<and> c \<le> 102 then Some (c - 87)
      else if 65 \<le> c \<and> c \<le> 70 then Some (c - 55)
      else None)"

fun digits_acc :: "nat \<Rightarrow> nat \<Rightarrow> js_string \<Rightarrow> nat option" where
  "digits_acc base acc [] = Some acc"
| "digits_acc base acc (c # cs) =
     (case digit_value c of
        None \<Rightarrow> None
      | Some d \<Rightarrow> if d < base then digits_acc base (acc * base + d) cs else None)"

text \<open>A non-empty run of digits of the given base, read as a number.\<close>

definition parse_digits :: "nat \<Rightarrow> js_string \<Rightarrow> nat option" where
  "parse_digits base cs = (if cs = [] then None else digits_acc base 0 cs)"

definition trim :: "js_string \<Rightarrow> js_string" where
  "trim s = rev (dropWhile is_whitespace (rev (dropWhile is_whitespace s)))"

text \<open>
  \<^verbatim>\<open>SignedInteger\<close> of the string-to-BigInt grammar: decimal digits with an optional
  \<^verbatim>\<open>+\<close> or \<^verbatim>\<open>-\<close> in front.
\<close>

definition signed_integer :: "js_string \<Rightarrow> int option" where
  "signed_integer t =
     (case t of
        [] \<Rightarrow> None
      | c # rest \<Rightarrow>
          if c = 43 then map_option int (parse_digits 10 rest)
          else if c = 45 then map_option (\<lambda>n. - int n) (parse_digits 10 rest)
          else map_option int (parse_digits 10 t))"

text \<open>
  The abstract operation \<^verbatim>\<open>StringToBigInt\<close> of the language standard: white space is
  trimmed, the empty string is 0, a literal is either a signed decimal integer or an
  unsigned literal with one of the prefixes \<^verbatim>\<open>0x 0X 0o 0O 0b 0B\<close>; numeric separators
  are not part of the grammar.  \<open>None\<close> is the standard's \<^verbatim>\<open>undefined\<close>.
\<close>

definition StringToBigInt :: "js_string \<Rightarrow> int option" where
  "StringToBigInt str =
     (let t = trim str in
      if t = [] then Some 0
      else case t of
        c # d # rest \<Rightarrow>
          if c = 48 \<and> (d = 120 \<or> d = 88) then map_option int (parse_digits 16 rest)
          else if c = 48 \<and> (d = 111 \<or> d = 79) then map_option int (parse_digits 8 rest)
          else if c = 48 \<and> (d = 98 \<or> d = 66) then map_option int (parse_digits 2 rest)
          else signed_integer t
      | _ \<Rightarrow> signed_integer t)"

datatype js_error = SyntaxError

text \<open>
  \<^verbatim>\<open>BigInt(s)\<close> for a string argument: a \<^verbatim>\<open>SyntaxError\<close> is thrown where
  \<^verbatim>\<open>StringToBigInt\<close> is undefined.  Integers are unbounded here; an engine's limit on
  the size of a BigInt is not modelled.
\<close>

definition BigInt :: "js_string \<Rightarrow> js_error + int" where
  "BigInt s = (case StringToBigInt s of None \<Rightarrow> Inl SyntaxError | Some v \<Rightarrow> Inr v)"

text \<open>
  \<^verbatim>\<open>Math.ceil(a / b)\<close> for a non-negative integer \<open>a\<close> and a positive integer \<open>b\<close>, in
  integer arithmetic (lemma \<open>Math_ceil_div_ceiling\<close> below relates it to the ceiling of
  the quotient).
\<close>

definition Math_ceil_div :: "nat \<Rightarrow> nat \<Rightarrow> nat" where
  "Math_ceil_div a b = (a + b - 1) div b"

text \<open>The digit \<open>d < 16\<close> as a lower-case hexadecimal character.\<close>

definition hex_char :: "nat \<Rightarrow> code_unit" where
  "hex_char d = (if d < 10 then 48 + d else 87 + d)"

text \<open>\<^verbatim>\<open>toString(16)\<close> of a non-negative BigInt: no leading zeros, \<^verbatim>\<open>"0"\<close> for zero.\<close>

function toString16 :: "nat \<Rightarrow> js_string" where
  "toString16 n =
     (if n < 16 then [hex_char n] else toString16 (n div 16) @ [hex_char (n mod 16)])"
  by pat_completeness auto
termination
  by (relation "measure (\<lambda>n. n)") auto

declare toString16.simps [simp del]

section \<open>utils.ts\<close>

subsection \<open>bigIntToBytes\<close>

text \<open>
  The loop \<^verbatim>\<open>for (let i = 0; i < length; i++) { bytes.push(Number(temp & 0xFFn)); temp >>= 8n; }\<close>
  with its state \<open>i\<close>, \<open>bytes\<close>, \<open>temp\<close>.  On a BigInt \<^verbatim>\<open>&\<close> works on the infinite
  two's complement representation and \<^verbatim>\<open>>>\<close> is the arithmetic shift, as \<open>AND\<close> and
  \<open>drop_bit\<close> on \<open>int\<close> are.
\<close>

function bytes_loop :: "nat \<Rightarrow> nat \<Rightarrow> int list \<Rightarrow> int \<Rightarrow> int list" where
  "bytes_loop i len bytes temp =
     (if i < len then bytes_loop (i + 1) len (bytes @ [temp AND 255]) (drop_bit 8 temp)
      else bytes)"
  by pat_completeness auto
termination
  by (relation "measure (\<lambda>(i, len, bytes, temp). len - i)") auto

declare bytes_loop.simps [simp del]

definition bigIntToBytes :: "int \<Rightarrow> nat \<Rightarrow> bool \<Rightarrow> int list" where
  "bigIntToBytes v len isLittleEndian =
     (let bytes = bytes_loop 0 len [] v
      in if \<not> isLittleEndian then rev bytes else bytes)"

subsection \<open>parseInput\<close>

datatype input_type = Hex | Dec

text \<open>The two \<^verbatim>\<open>replace\<close> calls: every white space character and every underscore goes.\<close>

definition cleanInput :: "js_string \<Rightarrow> js_string" where
  "cleanInput input = filter (\<lambda>c. c \<noteq> 95) (filter (\<lambda>c. \<not> is_whitespace c) input)"

text \<open>The body of the \<^verbatim>\<open>try\<close> block; \<open>Inl\<close> is a thrown exception.\<close>

definition parseInput_try :: "js_string \<Rightarrow> input_type \<Rightarrow> js_error + int" where
  "parseInput_try input ty =
     (if input = [] then Inr 0
      else
        let clean = cleanInput input in
        case ty of
          Hex \<Rightarrow>
            (let hexStr = (if startsWith clean (js ''0x'') then clean else js ''0x'' @ clean)
             in BigInt hexStr)
        | Dec \<Rightarrow> BigInt clean)"

text \<open>The whole function: \<^verbatim>\<open>catch (e) { return 0n; }\<close>.\<close>

definition parseInput :: "js_string \<Rightarrow> input_type \<Rightarrow> int" where
  "parseInput input ty = (case parseInput_try input ty of Inl e \<Rightarrow> 0 | Inr v \<Rightarrow> v)"

subsection \<open>calculateMinBytes\<close>

definition calculateMinBytes :: "int \<Rightarrow> nat" where
  "calculateMinBytes v =
     (if v = 0 then 1
      else
        let absVal = (if v < 0 then - v else v);
            hex = toString16 (nat absVal)
        in Math_ceil_div (length hex) 2)"

section \<open>App.tsx: derived state of MainContent\<close>

text \<open>\<open>byteWidth\<close> has the type \<^verbatim>\<open>2 | 4 | 8\<close> in the source; it is a number here.\<close>

definition dynamicByteLength :: "int \<Rightarrow> nat \<Rightarrow> nat" where
  "dynamicByteLength rawValue byteWidth =
     (let minBytes = calculateMinBytes rawValue
      in max byteWidth (Math_ceil_div minBytes byteWidth * byteWidth))"

definition memoryBytes :: "int \<Rightarrow> nat \<Rightarrow> bool \<Rightarrow> int list" where
  "memoryBytes rawValue byteWidth isLittleEndian =
     bigIntToBytes rawValue (dynamicByteLength rawValue byteWidth) isLittleEndian"

text \<open>
  The results of the \<^verbatim>\<open>DataView\<close> getters: a Number holding an integer, a BigInt, or a
  floating point number.  A floating point result is represented by the bit pattern it
  is decoded from; the decoding itself is not modelled.
\<close>

datatype js_value = Number int | BigIntValue int | Float32Bits nat | Float64Bits nat

text \<open>
  The buffer of 8 zero bytes after the loop
  \<^verbatim>\<open>for (let i = 0; i < bytesToRead; i++) view.setUint8(i, memoryBytes[i])\<close>;
  \<^verbatim>\<open>setUint8\<close> stores its argument modulo 256.
\<close>

definition fill_buffer :: "int list \<Rightarrow> nat \<Rightarrow> nat list" where
  "fill_buffer bytes bytesToRead =
     foldl (\<lambda>buf i. buf[i := nat (bytes ! i mod 256)]) (replicate 8 0) [0..<bytesToRead]"

text \<open>The number whose little-endian bytes are given.\<close>

fun le_value :: "nat list \<Rightarrow> nat" where
  "le_value [] = 0"
| "le_value (b # bs) = b + 256 * le_value bs"

text \<open>\<^verbatim>\<open>getUintN(0, le)\<close> and \<^verbatim>\<open>getIntN(0, le)\<close> on \<open>n\<close> bytes at offset 0.\<close>

definition getUint :: "nat \<Rightarrow> bool \<Rightarrow> nat list \<Rightarrow> nat" where
  "getUint n le buf = le_value (if le then take n buf else rev (take n buf))"

definition getInt :: "nat \<Rightarrow> bool \<Rightarrow> nat list \<Rightarrow> int" where
  "getInt n le buf =
     (let u = int (getUint n le buf)
      in if 2 ^ (8 * n - 1) \<le> u then u - 2 ^ (8 * n) else u)"

definition safeGet :: "nat \<Rightarrow> js_value \<Rightarrow> nat \<Rightarrow> js_value option" where
  "safeGet bytesToRead getter minBytes =
     (if bytesToRead < minBytes then None else Some getter)"

record interpretations_result =
  int8 :: "js_value option"
  uint8 :: "js_value option"
  int16 :: "js_value option"
  uint16 :: "js_value option"
  int32 :: "js_value option"
  uint32 :: "js_value option"
  float32 :: "js_value option"
  int64 :: "js_value option"
  uint64 :: "js_value option"
  float64 :: "js_value option"

definition interpretations :: "int list \<Rightarrow> bool \<Rightarrow> interpretations_result" where
  "interpretations bytes le =
     (let bytesToRead = min (length bytes) 8;
          view = fill_buffer bytes bytesToRead
      in \<lparr> int8 = safeGet bytesToRead (Number (getInt 1 True view)) 1,
           uint8 = safeGet bytesToRead (Number (int (getUint 1 True view))) 1,
           int16 = safeGet bytesToRead (Number (getInt 2 le view)) 2,
           uint16 = safeGet bytesToRead (Number (int (getUint 2 le view))) 2,
           int32 = safeGet bytesToRead (Number (getInt 4 le view)) 4,
           uint32 = safeGet bytesToRead (Number (int (getUint 4 le view))) 4,
           float32 = safeGet bytesToRead (Float32Bits (getUint 4 le view)) 4,
           int64 = safeGet bytesToRead (BigIntValue (getInt 8 le view)) 8,
           uint64 = safeGet bytesToRead (BigIntValue (int (getUint 8 le view))) 8,
           float64 = safeGet bytesToRead (Float64Bits (getUint 8 le view)) 8 \<rparr>)"

section \<open>Notions used to state the properties\<close>

text \<open>
  Character classes of the literals: decimal, hexadecimal, octal and binary digits, by
  their code ranges, and a non-empty run of characters of one class.
\<close>

definition dec_char :: "code_unit \<Rightarrow> bool" where
  "dec_char c = (48 \<le> c \<and> c \<le> 57)"

definition hex_digit_char :: "code_unit \<Rightarrow> bool" where
  "hex_digit_char c = ((48 \<le> c \<and> c \<le> 57) \<or> (97 \<le> c \<and> c \<le> 102) \<or> (65 \<le> c \<and> c \<le> 70))"

definition oct_char :: "code_unit \<Rightarrow> bool" where
  "oct_char c = (48 \<le> c \<and> c \<le> 55)"

definition bin_char :: "code_unit \<Rightarrow> bool" where
  "bin_char c = (c = 48 \<or> c = 49)"

definition digit_run :: "(code_unit \<Rightarrow> bool) \<Rightarrow> js_string \<Rightarrow> bool" where
  "digit_run P s = (s \<noteq> [] \<and> list_all P s)"

text \<open>
  The value of a string of hexadecimal digits read as a hexadecimal number: the last
  character is the least significant digit; upper and lower case letters count alike.
\<close>

definition hex_digit_val :: "code_unit \<Rightarrow> int" where
  "hex_digit_val c =
     (if c \<le> 57 then int c - 48 else if 97 \<le> c then int c - 87 else int c - 55)"

fun hex_value_rev :: "js_string \<Rightarrow> int" where
  "hex_value_rev [] = 0"
| "hex_value_rev (c # cs) = hex_digit_val c + 16 * hex_value_rev cs"

definition hex_value :: "js_string \<Rightarrow> int" where
  "hex_value s = hex_value_rev (rev s)"

text \<open>
  The characters of a decimal number as the specification describes the Decimal format:
  decimal digits and the minus sign.
\<close>

definition decimal_spec_char :: "code_unit \<Rightarrow> bool" where
  "decimal_spec_char c = ((48 \<le> c \<and> c \<le> 57) \<or> c = 45)"

text \<open>
  The literals that the two formats accept.  Decimal: decimal digits with an optional
  \<^verbatim>\<open>+\<close> or \<^verbatim>\<open>-\<close> in front, or hexadecimal, octal or binary digits after one of the
  prefixes \<^verbatim>\<open>0x 0X 0o 0O 0b 0B\<close>.  Hex: hexadecimal digits after an optional prefix
  (nothing is said here about what an input with the prefix \<^verbatim>\<open>0X\<close> yields in Hex
  format: it counts as well formed).
\<close>

definition bigint_literal :: "js_string \<Rightarrow> bool" where
  "bigint_literal s =
     (case s of
        [] \<Rightarrow> False
      | c # r \<Rightarrow>
          digit_run dec_char s
          \<or> ((c = 43 \<or> c = 45) \<and> digit_run dec_char r)
          \<or> (c = 48 \<and>
              (case r of
                 [] \<Rightarrow> False
               | d # r' \<Rightarrow>
                   ((d = 120 \<or> d = 88) \<and> digit_run hex_digit_char r')
                   \<or> ((d = 111 \<or> d = 79) \<and> digit_run oct_char r')
                   \<or> ((d = 98 \<or> d = 66) \<and> digit_run bin_char r'))))"

definition hex_body :: "js_string \<Rightarrow> js_string" where
  "hex_body s = (if startsWith s (js ''0x'') \<or> startsWith s (js ''0X'') then drop 2 s else s)"

definition well_formed :: "input_type \<Rightarrow> js_string \<Rightarrow> bool" where
  "well_formed ty s =
     (case ty of Hex \<Rightarrow> digit_run hex_digit_char (hex_body s) | Dec \<Rightarrow> bigint_literal s)"

text \<open>The characters that \<open>digits_acc\<close> accepts for a base.\<close>

definition digit_ok :: "nat \<Rightarrow> code_unit \<Rightarrow> bool" where
  "digit_ok base c = (case digit_value c of None \<Rightarrow> False | Some d \<Rightarrow> d < base)"

text \<open>
  The bytes of \<open>t\<close> from the least significant one, by division: what \<open>bytes_loop\<close>
  appends (lemma \<open>bytes_loop_lsb\<close>).
\<close>

fun lsb_bytes :: "nat \<Rightarrow> int \<Rightarrow> int list" where
  "lsb_bytes 0 t = []"
| "lsb_bytes (Suc n) t = (t mod 256) # lsb_bytes n (t div 256)"

section \<open>Auxiliary facts\<close>

subsection \<open>The byte loop\<close>

lemma and_255: "(k::int) AND 255 = k mod 256"
proof -
  have "k AND mask 8 = take_bit 8 k" by (simp only: take_bit_eq_mask)
  then show ?thesis by (simp add: take_bit_eq_mod mask_eq_exp_minus_1)
qed

lemma drop_8: "drop_bit 8 (k::int) = k div 256"
  by (simp add: drop_bit_eq_div)

lemma bytes_loop_lsb:
  "i \<le> len \<Longrightarrow> bytes_loop i len bytes temp = bytes @ lsb_bytes (len - i) temp"
proof (induction i len bytes temp rule: bytes_loop.induct)
  case (1 i len bytes temp)
  show ?case
  proof (cases "i < len")
    case True
    then have "len - i = Suc (len - (i + 1))" by simp
    with True 1 show ?thesis
      by (subst bytes_loop.simps) (simp add: and_255 drop_8)
  next
    case False
    with 1 show ?thesis by (subst bytes_loop.simps) simp
  qed
qed

lemma bigIntToBytes_lsb:
  "bigIntToBytes v len le = (if le then lsb_bytes len v else rev (lsb_bytes len v))"
  by (simp add: bigIntToBytes_def bytes_loop_lsb)

lemma length_lsb_bytes: "length (lsb_bytes n t) = n"
  by (induction n arbitrary: t) simp_all

lemma lsb_bytes_range: "b \<in> set (lsb_bytes n t) \<Longrightarrow> 0 \<le> b \<and> b \<le> 255"
proof (induction n arbitrary: t)
  case 0
  then show ?case by simp
next
  case (Suc n)
  have "0 \<le> t mod 256" "t mod 256 < 256" by simp_all
  with Suc show ?case by auto
qed

lemma lsb_bytes_zero: "lsb_bytes n 0 = replicate n 0"
  by (induction n) simp_all

lemma lsb_bytes_nth: "i < n \<Longrightarrow> lsb_bytes n t ! i = (t div 256 ^ i) mod 256"
proof (induction n arbitrary: t i)
  case 0
  then show ?case by simp
next
  case (Suc n)
  show ?case
  proof (cases i)
    case 0
    then show ?thesis by simp
  next
    case (Suc j)
    with Suc.prems have "j < n" by simp
    from Suc.IH [OF this, of "t div 256"] Suc show ?thesis
      by (simp add: zdiv_zmult2_eq)
  qed
qed

lemma lsb_bytes_sum: "(\<Sum>i<n. lsb_bytes n t ! i * 256 ^ i) = t mod 256 ^ n"
proof (induction n arbitrary: t)
  case 0
  then show ?case by simp
next
  case (Suc n)
  have "(\<Sum>i<Suc n. lsb_bytes (Suc n) t ! i * 256 ^ i)
        = t mod 256 + (\<Sum>i<n. lsb_bytes n (t div 256) ! i * 256 ^ Suc i)"
    by (subst sum.lessThan_Suc_shift) simp
  also have "(\<Sum>i<n. lsb_bytes n (t div 256) ! i * 256 ^ Suc i)
        = 256 * (\<Sum>i<n. lsb_bytes n (t div 256) ! i * 256 ^ i)"
    by (simp add: sum_distrib_left mult_ac)
  also have "\<dots> = 256 * ((t div 256) mod 256 ^ n)"
    by (simp only: Suc.IH)
  also have "t mod 256 + 256 * ((t div 256) mod 256 ^ n) = t mod 256 ^ Suc n"
    using zmod_zmult2_eq [of "256 ^ n" t 256] by simp
  finally show ?case .
qed

subsection \<open>Ceiling division and hexadecimal digit strings\<close>

lemma Math_ceil_div_ceiling:
  assumes b: "0 < b"
  shows "Math_ceil_div a b = nat \<lceil>real a / real b\<rceil>"
proof -
  define x where "x = a + b - 1"
  define m where "m = x div b"
  have x: "m * b + x mod b = x" unfolding m_def by simp
  have r: "x mod b < b" using b by simp
  from b have xa: "x + 1 = a + b" unfolding x_def by simp
  have up: "a \<le> m * b" using x r xa by linarith
  have lo: "m * b < a + b" using x xa by linarith
  have rb: "0 < real b" using b by simp
  have "real (m * b) < real (a + b)" using lo by (simp only: of_nat_less_iff)
  then have "(real m - 1) * real b < real a" by (simp add: algebra_simps)
  then have l: "real m - 1 < real a / real b" using rb by (simp add: pos_less_divide_eq)
  have "real a \<le> real (m * b)" using up by (simp only: of_nat_le_iff)
  then have u: "real a / real b \<le> real m" using rb by (simp add: pos_divide_le_eq)
  have "\<lceil>real a / real b\<rceil> = int m"
    by (rule ceiling_unique) (use l u in simp_all)
  then show ?thesis by (simp add: Math_ceil_div_def m_def x_def)
qed

lemma toString16_length_pos: "0 < length (toString16 n)"
  by (subst toString16.simps) simp

lemma toString16_bounds:
  "0 < n \<Longrightarrow> 16 ^ (length (toString16 n) - 1) \<le> n \<and> n < 16 ^ length (toString16 n)"
proof (induction n rule: toString16.induct)
  case (1 n)
  show ?case
  proof (cases "n < 16")
    case True
    with 1 show ?thesis by (subst (1 2) toString16.simps) simp
  next
    case False
    then have pos: "0 < n div 16" by simp
    let ?k = "length (toString16 (n div 16))"
    from 1 False pos have IH: "16 ^ (?k - 1) \<le> n div 16" "n div 16 < 16 ^ ?k" by simp_all
    have len: "length (toString16 n) = Suc ?k"
      using False by (subst toString16.simps) simp
    have kpos: "0 < ?k" by (rule toString16_length_pos)
    have "16 * 16 ^ (?k - 1) \<le> 16 * (n div 16)" using IH(1) by simp
    also have "\<dots> \<le> n" by simp
    finally have lo: "16 ^ ?k \<le> n" using kpos by (cases ?k) simp_all
    have "n div 16 + 1 \<le> 16 ^ ?k" using IH(2) by simp
    then have "16 * (n div 16 + 1) \<le> 16 * 16 ^ ?k" by (simp only: mult_le_mono2)
    moreover have "n < 16 * (n div 16 + 1)" by simp
    ultimately have hi: "n < 16 ^ Suc ?k" by simp
    from lo hi len show ?thesis by simp
  qed
qed

lemma digit_count_unique:
  fixes n :: nat
  assumes "16 ^ (h - 1) \<le> n" "n < 16 ^ h" "16 ^ (k - 1) \<le> n" "n < 16 ^ k"
  shows "h = k"
proof (rule ccontr)
  assume "h \<noteq> k"
  then consider "h < k" | "k < h" by linarith
  then show False
  proof cases
    case 1
    then have "h \<le> k - 1" by simp
    then have "(16::nat) ^ h \<le> 16 ^ (k - 1)" by (simp only: power_increasing_iff) 
    with assms show False by linarith
  next
    case 2
    then have "k \<le> h - 1" by simp
    then have "(16::nat) ^ k \<le> 16 ^ (h - 1)" by (simp only: power_increasing_iff)
    with assms show False by linarith
  qed
qed

lemma Math_ceil_div_ge: "0 < b \<Longrightarrow> a \<le> Math_ceil_div a b * b"
proof -
  assume b: "0 < b"
  define x where "x = a + b - 1"
  have "x div b * b + x mod b = x" by simp
  moreover have "x mod b < b" using b by simp
  moreover have "x + 1 = a + b" using b unfolding x_def by simp
  ultimately have "a \<le> x div b * b" by linarith
  then show ?thesis by (simp add: Math_ceil_div_def x_def)
qed

lemma Math_ceil_div_pos: "0 < a \<Longrightarrow> 0 < b \<Longrightarrow> 0 < Math_ceil_div a b"
  using Math_ceil_div_ge [of b a] by (cases "Math_ceil_div a b") simp_all

lemma calculateMinBytes_nonzero:
  "v \<noteq> 0 \<Longrightarrow> calculateMinBytes v = Math_ceil_div (length (toString16 (nat \<bar>v\<bar>))) 2"
  by (simp add: calculateMinBytes_def abs_if)

lemma calculateMinBytes_pos: "0 < calculateMinBytes v"
proof (cases "v = 0")
  case True
  then show ?thesis by (simp add: calculateMinBytes_def)
next
  case False
  have "0 < Math_ceil_div (length (toString16 (nat \<bar>v\<bar>))) 2"
    by (rule Math_ceil_div_pos) (rule toString16_length_pos, simp)
  with False show ?thesis by (simp add: calculateMinBytes_nonzero)
qed

lemma hex_length_bounds:
  assumes "v \<noteq> 0"
  shows "16 ^ (length (toString16 (nat \<bar>v\<bar>)) - 1) \<le> \<bar>v\<bar>"
    and "\<bar>v\<bar> < 16 ^ length (toString16 (nat \<bar>v\<bar>))"
proof -
  let ?n = "nat \<bar>v\<bar>"
  from assms have "0 < ?n" by simp
  from toString16_bounds [OF this]
  have "16 ^ (length (toString16 ?n) - 1) \<le> ?n" "?n < 16 ^ length (toString16 ?n)"
    by simp_all
  then have "int (16 ^ (length (toString16 ?n) - 1)) \<le> int ?n"
    "int ?n < int (16 ^ length (toString16 ?n))"
    by (simp_all only: of_nat_le_iff of_nat_less_iff)
  then show "16 ^ (length (toString16 ?n) - 1) \<le> \<bar>v\<bar>" "\<bar>v\<bar> < 16 ^ length (toString16 ?n)"
    by simp_all
qed

lemma hex_length_unique:
  assumes "v \<noteq> 0" "16 ^ (h - 1) \<le> \<bar>v\<bar>" "\<bar>v\<bar> < 16 ^ h"
  shows "length (toString16 (nat \<bar>v\<bar>)) = h"
proof -
  let ?n = "nat \<bar>v\<bar>"
  from assms have "0 < ?n" by simp
  from toString16_bounds [OF this]
  have a: "16 ^ (length (toString16 ?n) - 1) \<le> ?n" "?n < 16 ^ length (toString16 ?n)"
    by simp_all
  from assms(2) have "int (16 ^ (h - 1)) \<le> int ?n" by simp
  then have b: "16 ^ (h - 1) \<le> ?n" by (simp only: of_nat_le_iff)
  from assms(3) have "int ?n < int (16 ^ h)" by simp
  then have c: "?n < 16 ^ h" by (simp only: of_nat_less_iff)
  from a b c show ?thesis by (rule digit_count_unique)
qed

lemma calculateMinBytes_covers: "\<bar>v\<bar> < 256 ^ calculateMinBytes v"
proof (cases "v = 0")
  case True
  then show ?thesis by simp
next
  case False
  let ?len = "length (toString16 (nat \<bar>v\<bar>))"
  have "?len \<le> Math_ceil_div ?len 2 * 2" by (rule Math_ceil_div_ge) simp
  then have "(16::int) ^ ?len \<le> 16 ^ (Math_ceil_div ?len 2 * 2)"
    by (simp only: power_increasing_iff) 
  also have "\<dots> = 256 ^ Math_ceil_div ?len 2"
    by (simp add: power_mult mult.commute)
  finally have "(16::int) ^ ?len \<le> 256 ^ calculateMinBytes v"
    using False by (simp add: calculateMinBytes_nonzero)
  with hex_length_bounds(2) [OF False] show ?thesis by linarith
qed

lemma toString16_small: "n < 16 \<Longrightarrow> toString16 n = [hex_char n]"
  by (subst toString16.simps) simp

lemma toString16_large:
  "\<not> n < 16 \<Longrightarrow> toString16 n = toString16 (n div 16) @ [hex_char (n mod 16)]"
  by (subst toString16.simps) simp

lemmas toString16_eval = toString16_small toString16_large hex_char_def

subsection \<open>Evaluation of the buffer and of the parser on literals\<close>

lemma upt_4: "[0..<4] = [0, Suc 0, Suc (Suc 0), Suc (Suc (Suc 0))]"
  by (simp add: upt_rec)

lemma replicate_8: "replicate 8 x = [x, x, x, x, x, x, x, x]"
  by (simp add: numeral_eq_Suc)

lemma fill4: "fill_buffer [120, 86, 52, 18] 4 = [120, 86, 52, 18, 0, 0, 0, 0]"
  by (simp add: fill_buffer_def upt_4 replicate_8)

lemma int32_example: "int32 (interpretations [120, 86, 52, 18] True) = Some (Number 305419896)"
proof -
  have n: "min (length [120, 86, 52, 18 :: int]) 8 = 4" by simp
  show ?thesis
    by (simp only: interpretations_def Let_def n fill4)
      (simp add: safeGet_def getInt_def getUint_def)
qed

lemmas parse_eval = parseInput_def parseInput_try_def js_def cleanInput_def is_whitespace_def
  startsWith_def BigInt_def StringToBigInt_def trim_def parse_digits_def digit_value_def
  signed_integer_def

subsection \<open>The parser\<close>

lemma digit_ok_16: "digit_ok 16 = hex_digit_char"
  by (rule ext) (auto simp: digit_ok_def digit_value_def hex_digit_char_def)

lemma digit_ok_10: "digit_ok 10 = dec_char"
  by (rule ext) (auto simp: digit_ok_def digit_value_def dec_char_def)

lemma digit_ok_8: "digit_ok 8 = oct_char"
  by (rule ext) (auto simp: digit_ok_def digit_value_def oct_char_def)

lemma digit_ok_2: "digit_ok 2 = bin_char"
  by (rule ext) (auto simp: digit_ok_def digit_value_def bin_char_def)

lemma digits_acc_Some_iff:
  "(\<exists>n. digits_acc base acc s = Some n) = list_all (digit_ok base) s"
  by (induction s arbitrary: acc) (auto simp: digit_ok_def split: option.splits)

lemma parse_digits_Some_iff:
  "(\<exists>n. parse_digits base s = Some n) = digit_run (digit_ok base) s"
  by (simp add: parse_digits_def digit_run_def digits_acc_Some_iff)

lemma parse_digits_None: "\<not> digit_run (digit_ok base) s \<Longrightarrow> parse_digits base s = None"
  using parse_digits_Some_iff [of base s] by (cases "parse_digits base s") auto

lemma digit_value_hex:
  "hex_digit_char c \<Longrightarrow> digit_value c = Some (nat (hex_digit_val c)) \<and> 0 \<le> hex_digit_val c \<and> hex_digit_val c < 16"
  by (auto simp: hex_digit_char_def digit_value_def hex_digit_val_def)

lemma digits_acc_hex:
  "list_all hex_digit_char s \<Longrightarrow>
   \<exists>n. digits_acc 16 acc s = Some n \<and> int n = int acc * 16 ^ length s + hex_value s"
proof (induction s arbitrary: acc)
  case Nil
  then show ?case by (simp add: hex_value_def)
next
  case (Cons c s)
  then have c: "hex_digit_char c" and s: "list_all hex_digit_char s" by simp_all
  from digit_value_hex [OF c] have dv: "digit_value c = Some (nat (hex_digit_val c))"
    and r: "0 \<le> hex_digit_val c" "hex_digit_val c < 16" by simp_all
  from Cons.IH [OF s, of "acc * 16 + nat (hex_digit_val c)"]
  obtain n where n: "digits_acc 16 (acc * 16 + nat (hex_digit_val c)) s = Some n"
    "int n = int (acc * 16 + nat (hex_digit_val c)) * 16 ^ length s + hex_value s" by blast
  have hv: "hex_value (c # s) = hex_digit_val c * 16 ^ length s + hex_value s"
  proof -
    have "hex_value_rev (xs @ [c]) = hex_digit_val c * 16 ^ length xs + hex_value_rev xs" for xs
      by (induction xs) (simp_all add: algebra_simps)
    from this [of "rev s"] show ?thesis by (simp add: hex_value_def)
  qed
  from r have lt: "nat (hex_digit_val c) < 16" by simp
  have "digits_acc 16 acc (c # s) = Some n" using dv lt n(1) by simp
  moreover have "int n = int acc * 16 ^ length (c # s) + hex_value (c # s)"
    using n(2) r(1) by (simp add: hv algebra_simps)
  ultimately show ?case by blast
qed

lemma parse_digits_hex:
  "digit_run hex_digit_char s \<Longrightarrow> map_option int (parse_digits 16 s) = Some (hex_value s)"
proof -
  assume "digit_run hex_digit_char s"
  then have ne: "s \<noteq> []" and all: "list_all hex_digit_char s" by (simp_all add: digit_run_def)
  from digits_acc_hex [OF all, of 0] obtain n
    where "digits_acc 16 0 s = Some n" "int n = hex_value s" by auto
  with ne show ?thesis by (simp add: parse_digits_def)
qed

lemma dropWhile_none: "\<forall>c \<in> set s. \<not> P c \<Longrightarrow> dropWhile P s = s"
  by (cases s) simp_all

lemma trim_no_whitespace: "\<forall>c \<in> set s. \<not> is_whitespace c \<Longrightarrow> trim s = s"
  by (simp add: trim_def dropWhile_none)

lemma cleanInput_no_whitespace: "\<forall>c \<in> set (cleanInput input). \<not> is_whitespace c"
  by (simp add: cleanInput_def)

lemma trim_cleanInput: "trim (cleanInput input) = cleanInput input"
  by (rule trim_no_whitespace) (rule cleanInput_no_whitespace)

lemma hex_digit_char_clean: "hex_digit_char c \<Longrightarrow> \<not> is_whitespace c \<and> c \<noteq> 95 \<and> c \<noteq> 120 \<and> c \<noteq> 88"
  by (auto simp: hex_digit_char_def is_whitespace_def)

lemma cleanInput_hex: "list_all hex_digit_char s \<Longrightarrow> cleanInput s = s"
  by (induction s) (simp_all add: cleanInput_def hex_digit_char_clean)

lemma js_0x: "js ''0x'' = [48, 120]"
  by (simp add: js_def)

lemma js_0X: "js ''0X'' = [48, 88]"
  by (simp add: js_def)

lemma StringToBigInt_0x:
  "trim (48 # 120 # r) = 48 # 120 # r \<Longrightarrow>
   StringToBigInt (48 # 120 # r) = map_option int (parse_digits 16 r)"
  by (simp add: StringToBigInt_def Let_def)

lemma BigInt_0x:
  "list_all hex_digit_char s \<Longrightarrow>
   BigInt (48 # 120 # s) = (if s = [] then Inl SyntaxError else Inr (hex_value s))"
proof -
  assume all: "list_all hex_digit_char s"
  have "\<not> is_whitespace c" if "c \<in> set s" for c
    using that all hex_digit_char_clean [of c] by (simp add: list_all_iff)
  moreover have "\<not> is_whitespace 48" "\<not> is_whitespace 120"
    by (simp_all add: is_whitespace_def)
  ultimately have "\<forall>c \<in> set (48 # 120 # s). \<not> is_whitespace c" by simp
  then have "trim (48 # 120 # s) = 48 # 120 # s" by (rule trim_no_whitespace)
  then have t: "StringToBigInt (48 # 120 # s) = map_option int (parse_digits 16 s)"
    by (rule StringToBigInt_0x)
  show ?thesis
  proof (cases "s = []")
    case True
    with t have "StringToBigInt [48, 120] = None" by (simp add: parse_digits_def)
    with True show ?thesis by (simp add: BigInt_def)
  next
    case False
    with all have "digit_run hex_digit_char s" by (simp add: digit_run_def)
    from parse_digits_hex [OF this]
    have "StringToBigInt (48 # 120 # s) = Some (hex_value s)" by (simp only: t)
    with False show ?thesis by (simp add: BigInt_def)
  qed
qed

lemma parseInput_0x_hex:
  assumes "list_all hex_digit_char s"
  shows "parseInput (js ''0x'' @ s) ty = hex_value s"
proof -
  have c: "cleanInput (48 # 120 # s) = 48 # 120 # s"
    using cleanInput_hex [OF assms] by (simp add: cleanInput_def is_whitespace_def)
  have h0: "hex_value [] = 0" by (simp add: hex_value_def)
  show ?thesis
    by (cases ty) (simp_all add: parseInput_def parseInput_try_def Let_def c startsWith_def
        js_0x BigInt_0x [OF assms] h0)
qed

lemma parseInput_hex_digits:
  assumes "list_all hex_digit_char s"
  shows "parseInput s Hex = hex_value s"
proof (cases "s = []")
  case True
  then show ?thesis by (simp add: parseInput_def parseInput_try_def hex_value_def)
next
  case False
  have c: "cleanInput s = s" by (rule cleanInput_hex [OF assms])
  have "\<not> startsWith s (js ''0x'')"
  proof
    assume "startsWith s (js ''0x'')"
    then obtain r where "s = 48 # 120 # r"
      by (cases s; cases "tl s") (auto simp: startsWith_def js_0x)
    with assms have "hex_digit_char 120" by simp
    then show False by (simp add: hex_digit_char_def)
  qed
  with False show ?thesis
    by (simp add: parseInput_def parseInput_try_def Let_def c js_0x BigInt_0x [OF assms])
qed

lemma map_parse_digits_Some:
  "map_option f (parse_digits base s) = Some v \<Longrightarrow> digit_run (digit_ok base) s"
  using parse_digits_Some_iff [of base s] by (cases "parse_digits base s") auto

lemma signed_integer_Some:
  assumes "signed_integer t = Some v"
  shows "\<exists>c r. t = c # r \<and> (digit_run dec_char t \<or> ((c = 43 \<or> c = 45) \<and> digit_run dec_char r))"
proof (cases t)
  case Nil
  with assms show ?thesis by (simp add: signed_integer_def)
next
  case (Cons c r)
  consider (plus) "c = 43" | (minus) "c = 45" | (none) "c \<noteq> 43" "c \<noteq> 45" by blast
  then show ?thesis
  proof cases
    case plus
    with assms Cons have "map_option int (parse_digits 10 r) = Some v"
      by (simp add: signed_integer_def)
    from map_parse_digits_Some [OF this] plus Cons show ?thesis by (simp add: digit_ok_10)
  next
    case minus
    with assms Cons have "map_option (\<lambda>n. - int n) (parse_digits 10 r) = Some v"
      by (simp add: signed_integer_def)
    from map_parse_digits_Some [OF this] minus Cons show ?thesis by (simp add: digit_ok_10)
  next
    case none
    with assms Cons have "map_option int (parse_digits 10 t) = Some v"
      by (simp add: signed_integer_def)
    from map_parse_digits_Some [OF this] Cons show ?thesis by (simp add: digit_ok_10)
  qed
qed

lemma signed_integer_literal: "signed_integer t = Some v \<Longrightarrow> bigint_literal t"
  by (drule signed_integer_Some) (auto simp: bigint_literal_def)

lemma if_chain_Some:
  "(if A then x else if B then y else if C then z else w) = Some v \<Longrightarrow>
   (A \<and> x = Some v) \<or> (B \<and> y = Some v) \<or> (C \<and> z = Some v) \<or> w = Some v"
  by (auto split: if_splits)

lemma StringToBigInt_literal:
  assumes t: "trim s = s" and v: "StringToBigInt s = Some v" and ne: "s \<noteq> []"
  shows "bigint_literal s"
proof (cases s)
  case Nil
  with ne show ?thesis by simp
next
  case c: (Cons c r)
  show ?thesis
  proof (cases r)
    case Nil
    have ts: "trim [c] = [c]" using t c Nil by simp
    from v have "signed_integer [c] = Some v"
      by (simp add: StringToBigInt_def Let_def c Nil ts)
    then show ?thesis unfolding c Nil by (rule signed_integer_literal)
  next
    case (Cons d r')
    have ts: "trim (c # d # r') = c # d # r'" using t c Cons by simp
    from v have "StringToBigInt (c # d # r') = Some v" by (simp add: c Cons)
    then have "(if c = 48 \<and> (d = 120 \<or> d = 88) then map_option int (parse_digits 16 r')
          else if c = 48 \<and> (d = 111 \<or> d = 79) then map_option int (parse_digits 8 r')
          else if c = 48 \<and> (d = 98 \<or> d = 66) then map_option int (parse_digits 2 r')
          else signed_integer (c # d # r')) = Some v"
      by (simp add: StringToBigInt_def Let_def ts split del: if_split)
    from if_chain_Some [OF this] consider
        (hex) "c = 48" "d = 120 \<or> d = 88" "map_option int (parse_digits 16 r') = Some v"
      | (oct) "c = 48" "d = 111 \<or> d = 79" "map_option int (parse_digits 8 r') = Some v"
      | (bin) "c = 48" "d = 98 \<or> d = 66" "map_option int (parse_digits 2 r') = Some v"
      | (dec) "signed_integer s = Some v"
      unfolding c Cons by blast
    then show ?thesis
    proof cases
      case hex
      from map_parse_digits_Some [OF hex(3)] have "digit_run hex_digit_char r'"
        by (simp add: digit_ok_16)
      with hex(1,2) show ?thesis by (simp add: bigint_literal_def c Cons)
    next
      case oct
      from map_parse_digits_Some [OF oct(3)] have "digit_run oct_char r'"
        by (simp add: digit_ok_8)
      with oct(1,2) show ?thesis by (simp add: bigint_literal_def c Cons)
    next
      case bin
      from map_parse_digits_Some [OF bin(3)] have "digit_run bin_char r'"
        by (simp add: digit_ok_2)
      with bin(1,2) show ?thesis by (simp add: bigint_literal_def c Cons)
    next
      case dec
      then show ?thesis by (rule signed_integer_literal)
    qed
  qed
qed

lemma parseInput_dec_malformed:
  assumes "\<not> bigint_literal (cleanInput input)"
  shows "parseInput input Dec = 0"
proof (cases "input = []")
  case True
  then show ?thesis by (simp add: parseInput_def parseInput_try_def)
next
  case False
  let ?c = "cleanInput input"
  have p: "parseInput input Dec = (case StringToBigInt ?c of None \<Rightarrow> 0 | Some v \<Rightarrow> v)"
    using False by (simp add: parseInput_def parseInput_try_def BigInt_def split: option.splits)
  show ?thesis
  proof (cases "?c = []")
    case True
    then show ?thesis by (simp add: p StringToBigInt_def trim_def)
  next
    case ne: False
    have "StringToBigInt ?c = None"
    proof (cases "StringToBigInt ?c")
      case None
      then show ?thesis .
    next
      case (Some v)
      from StringToBigInt_literal [OF trim_cleanInput Some ne] assms show ?thesis by simp
    qed
    then show ?thesis by (simp add: p)
  qed
qed

lemma startsWith_2: "startsWith s [a, b] = (\<exists>r. s = a # b # r)"
  by (cases s; cases "tl s") (auto simp: startsWith_def)

lemma parseInput_hex_malformed:
  assumes "\<not> digit_run hex_digit_char (hex_body (cleanInput input))"
  shows "parseInput input Hex = 0"
proof (cases "input = []")
  case True
  then show ?thesis by (simp add: parseInput_def parseInput_try_def)
next
  case False
  let ?c = "cleanInput input"
  have ws: "\<forall>c \<in> set ?c. \<not> is_whitespace c" by (rule cleanInput_no_whitespace)
  show ?thesis
  proof (cases "startsWith ?c (js ''0x'')")
    case True
    then obtain r where r: "?c = 48 # 120 # r" by (auto simp: js_0x startsWith_2)
    have "trim (48 # 120 # r) = 48 # 120 # r" using trim_cleanInput [of input] by (simp add: r)
    then have "StringToBigInt (48 # 120 # r) = map_option int (parse_digits 16 r)"
      by (rule StringToBigInt_0x)
    moreover have "hex_body ?c = r" by (simp add: hex_body_def r js_0x startsWith_def)
    with assms have "parse_digits 16 r = None"
      by (simp add: parse_digits_None digit_ok_16)
    ultimately have "BigInt ?c = Inl SyntaxError" by (simp add: BigInt_def r)
    with False True show ?thesis by (simp add: parseInput_def parseInput_try_def Let_def)
  next
    case nox: False
    have "\<not> is_whitespace 48" "\<not> is_whitespace 120" by (simp_all add: is_whitespace_def)
    with ws have "\<forall>c \<in> set (48 # 120 # ?c). \<not> is_whitespace c" by simp
    then have "trim (48 # 120 # ?c) = 48 # 120 # ?c" by (rule trim_no_whitespace)
    then have s: "StringToBigInt (48 # 120 # ?c) = map_option int (parse_digits 16 ?c)"
      by (rule StringToBigInt_0x)
    have "\<not> digit_run hex_digit_char ?c"
    proof (cases "startsWith ?c (js ''0X'')")
      case True
      then obtain r where "?c = 48 # 88 # r" by (auto simp: js_0X startsWith_2)
      then show ?thesis by (simp add: digit_run_def hex_digit_char_def)
    next
      case False
      with nox assms show ?thesis by (simp add: hex_body_def)
    qed
    then have "parse_digits 16 ?c = None"
      by (simp add: parse_digits_None digit_ok_16)
    with s have "BigInt (48 # 120 # ?c) = Inl SyntaxError" by (simp add: BigInt_def)
    with False nox show ?thesis
      by (simp add: parseInput_def parseInput_try_def Let_def js_0x)
  qed
qed

section \<open>The encoder\<close>

text \<open>
  C1.  For every integer \<open>v\<close> (of either sign) and every length \<open>L\<close>, the little-endian
  byte sequence read back as the sum of \<open>byte[i] * 256^i\<close> over all its indices is
  \<open>v mod 256^L\<close>, the non-negative remainder: only the low \<open>L\<close> bytes of \<open>v\<close> are kept.
\<close>

theorem bigIntToBytes_little_sum: "(\<Sum>i<length (bigIntToBytes v L True). bigIntToBytes v L True ! i * 256 ^ i) = v mod 256 ^ L"
  by (simp add: bigIntToBytes_lsb length_lsb_bytes lsb_bytes_sum)

text \<open>
  C4.  For a non-negative \<open>v\<close> and a length \<open>L\<close> of at least \<open>calculateMinBytes v\<close>, the
  little-endian sequence reversed is the big-endian sequence, and index 0 of the
  big-endian sequence is the most significant byte: everything of \<open>v\<close> above its low
  \<open>L - 1\<close> bytes.
\<close>

theorem bigIntToBytes_big_reversed:
  assumes "0 \<le> v" and "calculateMinBytes v \<le> L"
  shows "rev (bigIntToBytes v L True) = bigIntToBytes v L False
    \<and> bigIntToBytes v L False ! 0 = v div 256 ^ (L - 1)"
proof -
  have Lpos: "0 < L" using calculateMinBytes_pos [of v] assms(2) by simp
  have "\<bar>v\<bar> < 256 ^ calculateMinBytes v" by (rule calculateMinBytes_covers)
  also have "(256::int) ^ calculateMinBytes v \<le> 256 ^ L"
    using assms(2) by (simp only: power_increasing_iff) 
  finally have "v < 256 ^ L" using assms(1) by simp
  also have "(256::int) ^ L = 256 ^ (L - 1) * 256"
    using Lpos by (cases L) simp_all
  finally have vlt: "v < 256 ^ (L - 1) * 256" .
  have "256 ^ (L - 1) * (v div 256 ^ (L - 1)) + v mod 256 ^ (L - 1) = v" by simp
  moreover have "0 \<le> v mod (256 ^ (L - 1))" by simp
  ultimately have "256 ^ (L - 1) * (v div 256 ^ (L - 1)) < 256 ^ (L - 1) * 256"
    using vlt by linarith
  then have "v div 256 ^ (L - 1) < 256"
    by (simp only: mult_less_cancel_left_pos zero_less_power zero_less_numeral)
  moreover have "0 \<le> v div 256 ^ (L - 1)"
    using assms(1) by (simp add: pos_imp_zdiv_nonneg_iff)
  ultimately have m: "(v div 256 ^ (L - 1)) mod 256 = v div 256 ^ (L - 1)" by simp
  have "bigIntToBytes v L False ! 0 = lsb_bytes L v ! (L - 1)"
    using Lpos by (simp add: bigIntToBytes_lsb rev_nth length_lsb_bytes)
  also have "\<dots> = (v div 256 ^ (L - 1)) mod 256"
    using Lpos by (simp add: lsb_bytes_nth)
  finally have "bigIntToBytes v L False ! 0 = v div 256 ^ (L - 1)" using m by simp
  then show ?thesis by (simp add: bigIntToBytes_lsb)
qed

theorem bigIntToBytes_big_reversed_witness:
  "(0::int) \<le> 305419896 \<and> calculateMinBytes 305419896 \<le> 4
    \<and> rev (bigIntToBytes 305419896 4 True) = bigIntToBytes 305419896 4 False
    \<and> bigIntToBytes 305419896 4 False ! 0 = 18"
proof -
  have a: "(0::int) \<le> 305419896" by simp
  have b: "calculateMinBytes 305419896 \<le> 4"
    by (simp add: calculateMinBytes_def toString16_eval Math_ceil_div_def)
  from bigIntToBytes_big_reversed [OF a b] a b show ?thesis by simp
qed

text \<open>
  C7.  For every integer value (negative ones included), every length \<open>L\<close> and either
  byte order the result has exactly \<open>L\<close> elements, each between 0 and 255.
\<close>

theorem bigIntToBytes_length_range:
  "length (bigIntToBytes v L le) = L \<and> set (bigIntToBytes v L le) \<subseteq> {0..255}"
proof -
  have "set (lsb_bytes L v) \<subseteq> {0..255}"
    using lsb_bytes_range [of _ L v] by auto
  then show ?thesis by (simp add: bigIntToBytes_lsb length_lsb_bytes)
qed

text \<open>
  C9.  The encoding of 0 at length \<open>L\<close> is \<open>L\<close> zero bytes, in either byte order.
\<close>

theorem bigIntToBytes_zero: "bigIntToBytes 0 L le = replicate L 0"
  by (simp add: bigIntToBytes_lsb lsb_bytes_zero)

section \<open>The minimum byte count and the padded length\<close>

text \<open>
  C5.  \<open>calculateMinBytes 0 = 1\<close>; for \<open>v \<noteq> 0\<close> the absolute value has a number \<open>h\<close> of
  hexadecimal digits (\<open>16^(h-1) \<le> |v| < 16^h\<close>) and the result is the ceiling of \<open>h / 2\<close>;
  the result is never zero.
\<close>

theorem calculateMinBytes_hex_digits:
  "calculateMinBytes 0 = 1
   \<and> (v \<noteq> 0 \<longrightarrow>
        (\<exists>h. 16 ^ (h - 1) \<le> \<bar>v\<bar> \<and> \<bar>v\<bar> < 16 ^ h)
        \<and> (\<forall>h. 16 ^ (h - 1) \<le> \<bar>v\<bar> \<and> \<bar>v\<bar> < 16 ^ h
               \<longrightarrow> calculateMinBytes v = nat \<lceil>real h / 2\<rceil>))
   \<and> 0 < calculateMinBytes v"
proof (intro conjI impI allI)
  show "calculateMinBytes 0 = 1" by (simp add: calculateMinBytes_def)
next
  assume "v \<noteq> 0"
  from hex_length_bounds [OF this]
  show "\<exists>h. 16 ^ (h - 1) \<le> \<bar>v\<bar> \<and> \<bar>v\<bar> < 16 ^ h" by blast
next
  fix h
  assume v: "v \<noteq> 0" and h: "16 ^ (h - 1) \<le> \<bar>v\<bar> \<and> \<bar>v\<bar> < 16 ^ h"
  then have "length (toString16 (nat \<bar>v\<bar>)) = h" by (simp add: hex_length_unique)
  with v show "calculateMinBytes v = nat \<lceil>real h / 2\<rceil>"
    using Math_ceil_div_ceiling [of 2 h] by (simp add: calculateMinBytes_nonzero)
next
  show "0 < calculateMinBytes v" by (rule calculateMinBytes_pos)
qed

theorem calculateMinBytes_hex_digits_witness:
  "calculateMinBytes 0 = 1
   \<and> ((- 4660 :: int) \<noteq> 0 \<and> (16::int) ^ (4 - 1) \<le> \<bar>- 4660\<bar> \<and> \<bar>- 4660 :: int\<bar> < 16 ^ 4
        \<and> calculateMinBytes (- 4660) = nat \<lceil>real 4 / 2\<rceil> \<and> calculateMinBytes (- 4660) = 2)
   \<and> 0 < calculateMinBytes (- 4660)"
proof -
  have nz: "(- 4660 :: int) \<noteq> 0" by simp
  have a: "(16::int) ^ (4 - 1) \<le> \<bar>- 4660\<bar> \<and> \<bar>- 4660 :: int\<bar> < 16 ^ 4" by simp
  have b: "nat \<lceil>real 4 / 2\<rceil> = 2" by simp
  from calculateMinBytes_hex_digits [of "- 4660"] nz
  have "\<forall>h. 16 ^ (h - 1) \<le> \<bar>- 4660 :: int\<bar> \<and> \<bar>- 4660 :: int\<bar> < 16 ^ h
          \<longrightarrow> calculateMinBytes (- 4660) = nat \<lceil>real h / 2\<rceil>"
    by blast
  with a have c: "calculateMinBytes (- 4660) = nat \<lceil>real 4 / 2\<rceil>" by blast
  with b have d: "calculateMinBytes (- 4660) = 2" by (simp only:)
  from calculateMinBytes_hex_digits [of "- 4660"] have e: "calculateMinBytes 0 = 1" "0 < calculateMinBytes (- 4660)"
    by blast+
  from nz a c d e show ?thesis by blast
qed

text \<open>
  C8.  For a word width of 2, 4 or 8 bytes the number of bytes that are encoded is
  \<open>max byteWidth (\<lceil>minBytes / byteWidth\<rceil> * byteWidth)\<close>; it is positive, a multiple of the
  word width and at least \<open>calculateMinBytes\<close> of the value.
\<close>

theorem dynamicByteLength_padded:
  assumes "byteWidth \<in> {2, 4, 8}"
  shows "length (memoryBytes v byteWidth le) = dynamicByteLength v byteWidth
    \<and> dynamicByteLength v byteWidth
        = max byteWidth (nat \<lceil>real (calculateMinBytes v) / real byteWidth\<rceil> * byteWidth)
    \<and> 0 < dynamicByteLength v byteWidth
    \<and> byteWidth dvd dynamicByteLength v byteWidth
    \<and> calculateMinBytes v \<le> dynamicByteLength v byteWidth"
proof -
  from assms have pos: "0 < byteWidth" by auto
  let ?k = "Math_ceil_div (calculateMinBytes v) byteWidth"
  have d: "dynamicByteLength v byteWidth = max byteWidth (?k * byteWidth)"
    by (simp add: dynamicByteLength_def)
  have 1: "length (memoryBytes v byteWidth le) = dynamicByteLength v byteWidth"
    by (simp add: memoryBytes_def bigIntToBytes_lsb length_lsb_bytes)
  have 2: "dynamicByteLength v byteWidth
        = max byteWidth (nat \<lceil>real (calculateMinBytes v) / real byteWidth\<rceil> * byteWidth)"
    using Math_ceil_div_ceiling [OF pos, of "calculateMinBytes v"] by (simp add: d)
  have 3: "0 < dynamicByteLength v byteWidth" using pos by (simp add: d)
  have 4: "byteWidth dvd dynamicByteLength v byteWidth"
    by (simp add: d max_def)
  have "calculateMinBytes v \<le> ?k * byteWidth" using pos by (rule Math_ceil_div_ge)
  then have 5: "calculateMinBytes v \<le> dynamicByteLength v byteWidth" by (simp add: d)
  from 1 2 3 4 5 show ?thesis by blast
qed

theorem dynamicByteLength_padded_witness:
  "(4::nat) \<in> {2, 4, 8}
    \<and> length (memoryBytes 4294967296 4 True) = 8
    \<and> dynamicByteLength 4294967296 4 = 8
    \<and> calculateMinBytes 4294967296 = 5
    \<and> (4::nat) dvd dynamicByteLength 4294967296 4"
proof -
  have a: "(4::nat) \<in> {2, 4, 8}" by simp
  have c: "calculateMinBytes 4294967296 = 5"
    by (simp add: calculateMinBytes_def toString16_eval Math_ceil_div_def)
  have b: "dynamicByteLength 4294967296 4 = 8"
    by (simp add: dynamicByteLength_def c Math_ceil_div_def)
  from dynamicByteLength_padded [OF a, of 4294967296 True] a b c show ?thesis by simp
qed

section \<open>The reinterpretation view\<close>

text \<open>
  C2.  Each interpretation is the marker \<open>None\<close> ("unavailable"), and not a value,
  exactly when the number of bytes read, \<open>min (length bytes) 8\<close>, is below the width of
  its type: 1 for Int8 and Uint8, 2 for Int16 and Uint16, 4 for Int32, Uint32 and
  Float32, 8 for Int64, Uint64 and Float64.  With 4 encoded bytes the Int64
  interpretation is unavailable, not zero.
\<close>

theorem interpretations_unavailable:
  "(int8 (interpretations bytes le) = None) = (min (length bytes) 8 < 1)
   \<and> (uint8 (interpretations bytes le) = None) = (min (length bytes) 8 < 1)
   \<and> (int16 (interpretations bytes le) = None) = (min (length bytes) 8 < 2)
   \<and> (uint16 (interpretations bytes le) = None) = (min (length bytes) 8 < 2)
   \<and> (int32 (interpretations bytes le) = None) = (min (length bytes) 8 < 4)
   \<and> (uint32 (interpretations bytes le) = None) = (min (length bytes) 8 < 4)
   \<and> (float32 (interpretations bytes le) = None) = (min (length bytes) 8 < 4)
   \<and> (int64 (interpretations bytes le) = None) = (min (length bytes) 8 < 8)
   \<and> (uint64 (interpretations bytes le) = None) = (min (length bytes) 8 < 8)
   \<and> (float64 (interpretations bytes le) = None) = (min (length bytes) 8 < 8)
   \<and> (length bytes = 4 \<longrightarrow>
        int64 (interpretations bytes le) = None
        \<and> int64 (interpretations bytes le) \<noteq> Some (BigIntValue 0))"
  by (simp add: interpretations_def Let_def safeGet_def)

theorem interpretations_unavailable_witness:
  "length [120, 86, 52, 18 :: int] = 4
   \<and> int64 (interpretations [120, 86, 52, 18] True) = None
   \<and> int32 (interpretations [120, 86, 52, 18] True) = Some (Number 305419896)"
proof -
  have l: "length [120, 86, 52, 18 :: int] = 4" by simp
  from interpretations_unavailable [of "[120, 86, 52, 18]" True] l
  have "int64 (interpretations [120, 86, 52, 18] True) = None" by blast
  with l int32_example show ?thesis by simp
qed

section \<open>The parser\<close>

text \<open>
  C3.  The Hex format on the input \<^verbatim>\<open>1A2B\<close> with no prefix, with the prefix \<^verbatim>\<open>0x\<close> and
  with the prefix \<^verbatim>\<open>0X\<close>: the first two give 6699, the upper-case prefix gives 0,
  although the Decimal format reads the same text \<^verbatim>\<open>0X1A2B\<close> as 6699.  (That the
  prefix \<^verbatim>\<open>0x\<close> is optional for every string of hexadecimal digits, of either case,
  is \<open>parseInput_hex_digits\<close> with \<open>parseInput_0x_hex\<close>.)
\<close>

theorem parseInput_hex_upper_prefix:
  "parseInput (js ''0X1A2B'') Hex = 0
   \<and> parseInput (js ''0x1A2B'') Hex = 6699
   \<and> parseInput (js ''1A2B'') Hex = 6699
   \<and> parseInput (js ''0X1A2B'') Dec = 6699"
  by (simp add: parse_eval)

text \<open>
  C6, as amended.  \<open>parseInput\<close> returns an integer for every input and either format: an
  exception raised inside is turned into 0.  It returns 0 on the empty string, on an
  input that is empty once white space and underscores are removed, and on every input
  whose remainder is not a literal of the format (\<open>well_formed\<close>: for Decimal, signed
  decimal digits or a literal with a radix prefix; for Hex, hexadecimal digits after an
  optional prefix).  In particular the empty string and \<^verbatim>\<open>abc\<close> in Decimal format give 0.
\<close>

theorem parseInput_malformed_zero:
  "(parseInput_try input ty = Inl e \<longrightarrow> parseInput input ty = 0)
   \<and> (\<not> well_formed ty (cleanInput input) \<longrightarrow> parseInput input ty = 0)
   \<and> (cleanInput input = [] \<longrightarrow> parseInput input ty = 0)
   \<and> parseInput [] ty = 0
   \<and> parseInput (js '''') Dec = 0
   \<and> parseInput (js ''abc'') Dec = 0"
proof (intro conjI impI)
  assume "parseInput_try input ty = Inl e"
  then show "parseInput input ty = 0" by (simp add: parseInput_def)
next
  assume "\<not> well_formed ty (cleanInput input)"
  then show "parseInput input ty = 0"
    by (cases ty) (simp_all add: well_formed_def parseInput_hex_malformed parseInput_dec_malformed)
next
  assume "cleanInput input = []"
  then have "\<not> well_formed ty (cleanInput input)"
    by (cases ty) (simp_all add: well_formed_def bigint_literal_def digit_run_def hex_body_def)
  then show "parseInput input ty = 0"
    by (cases ty) (simp_all add: well_formed_def parseInput_hex_malformed parseInput_dec_malformed)
next
  show "parseInput [] ty = 0" by (simp add: parseInput_def parseInput_try_def)
next
  show "parseInput (js '''') Dec = 0" by (simp add: parse_eval)
next
  show "parseInput (js ''abc'') Dec = 0" by (simp add: parse_eval)
qed

theorem parseInput_malformed_zero_witness:
  "parseInput_try (js ''12a'') Dec = Inl SyntaxError
   \<and> \<not> well_formed Dec (cleanInput (js ''12a''))
   \<and> cleanInput (js '' _ '') = []
   \<and> parseInput (js ''12a'') Dec = 0
   \<and> parseInput (js '' _ '') Hex = 0"
proof -
  have a: "parseInput_try (js ''12a'') Dec = Inl SyntaxError" by (simp add: parse_eval)
  have b: "\<not> well_formed Dec (cleanInput (js ''12a''))"
    by (simp add: well_formed_def bigint_literal_def digit_run_def dec_char_def js_def
        cleanInput_def is_whitespace_def)
  have c: "cleanInput (js '' _ '') = []" by (simp add: js_def cleanInput_def is_whitespace_def)
  from parseInput_malformed_zero [of "js ''12a''" Dec SyntaxError] a have d: "parseInput (js ''12a'') Dec = 0" by blast
  from parseInput_malformed_zero [of "js '' _ ''" Hex] c have e: "parseInput (js '' _ '') Hex = 0" by blast
  from a b c d e show ?thesis by blast
qed

text \<open>
  C6 as stated fails: the Decimal input \<^verbatim>\<open>0x1A\<close> contains characters that are neither
  decimal digits nor a minus sign, and the result is 26, not 0.
\<close>

theorem parseInput_decimal_prefixed_counterexample:
  "list_ex (\<lambda>c. \<not> decimal_spec_char c) (cleanInput (js ''0x1A''))
   \<and> parseInput (js ''0x1A'') Dec = 26 \<and> parseInput (js ''0x1A'') Dec \<noteq> 0"
  by (simp add: parse_eval decimal_spec_char_def)

text \<open>
  C10.  In Decimal format the prefix \<^verbatim>\<open>0x\<close> followed by a string \<open>s\<close> of hexadecimal
  digits is read as the hexadecimal number \<open>s\<close>, which is also what the Hex format makes
  of \<open>s\<close> alone.
\<close>

theorem parseInput_decimal_accepts_0x:
  assumes "list_all hex_digit_char s"
  shows "parseInput (js ''0x'' @ s) Dec = hex_value s
    \<and> parseInput (js ''0x'' @ s) Dec = parseInput s Hex"
  using assms by (simp add: parseInput_0x_hex parseInput_hex_digits)

theorem parseInput_decimal_accepts_0x_witness:
  "list_all hex_digit_char (js ''1A2b'')
    \<and> hex_value (js ''1A2b'') = 6699
    \<and> parseInput (js ''0x'' @ js ''1A2b'') Dec = 6699
    \<and> parseInput (js ''1A2b'') Hex = 6699"
proof -
  have a: "list_all hex_digit_char (js ''1A2b'')" by (simp add: js_def hex_digit_char_def)
  have b: "hex_value (js ''1A2b'') = 6699" by (simp add: js_def hex_value_def hex_digit_val_def)
  from parseInput_decimal_accepts_0x [OF a] a b show ?thesis by simp
qed

end
